theory Spec2Isabelle
  imports Complex_Main
begin

section \<open>Strings\<close>

text \<open>
  A Go \<open>string\<close> holds UTF-8. The request's \<open>text\<close> is a proto3 string field, which the
  protobuf runtime only hands to the handler when it is valid UTF-8, so a string is
  modelled as the sequence of its code points (Go's \<open>rune\<close>s). \<open>strings.ToLower\<close>,
  \<open>strings.Fields\<close> and \<open>==\<close> all act on that sequence.
\<close>

type_synonym rune = nat
type_synonym gostring = "rune list"

definition gostr :: "string \<Rightarrow> gostring" where
  "gostr s = map of_char s"

text \<open>
  \<open>unicode.ToLower\<close>: the ASCII branch is written out; above ASCII the standard library
  looks the rune up in its case table, which is the parameter \<open>caseTable\<close>.
\<close>

definition toLowerRune :: "(rune \<Rightarrow> rune) \<Rightarrow> rune \<Rightarrow> rune" where
  "toLowerRune caseTable r =
     (if r \<le> 127 then (if 65 \<le> r \<and> r \<le> 90 then r + 32 else r) else caseTable r)"

definition ToLower :: "(rune \<Rightarrow> rune) \<Rightarrow> gostring \<Rightarrow> gostring" where
  "ToLower caseTable s = map (toLowerRune caseTable) s"

text \<open>
  \<open>unicode.IsSpace\<close>: in Latin-1 the runes \<open>\t \n \v \f \r\<close>, space, U+0085 and U+00A0;
  above Latin-1 the runes with the Unicode property White_Space.
\<close>

definition isSpace :: "rune \<Rightarrow> bool" where
  "isSpace r =
     (if r \<le> 255 then r = 9 \<or> r = 10 \<or> r = 11 \<or> r = 12 \<or> r = 13 \<or> r = 32 \<or> r = 133 \<or> r = 160
      else r = 5760 \<or> (8192 \<le> r \<and> r \<le> 8202) \<or> r = 8232 \<or> r = 8233 \<or> r = 8239
           \<or> r = 8287 \<or> r = 12288)"

text \<open>
  \<open>strings.Fields\<close> scans the runes once. \<open>cur\<close> is the field being read (\<open>None\<close> between
  fields), \<open>acc\<close> the fields already closed. A white-space rune closes the open field, any
  other rune opens one or extends it, and the end of the string closes the last field.
\<close>

fun fieldsLoop :: "gostring \<Rightarrow> gostring option \<Rightarrow> gostring list \<Rightarrow> gostring list" where
  "fieldsLoop [] cur acc = (case cur of None \<Rightarrow> acc | Some w \<Rightarrow> acc @ [w])"
| "fieldsLoop (r # rs) cur acc =
     (if isSpace r
      then (case cur of None \<Rightarrow> fieldsLoop rs None acc
                      | Some w \<Rightarrow> fieldsLoop rs None (acc @ [w]))
      else (case cur of None \<Rightarrow> fieldsLoop rs (Some [r]) acc
                      | Some w \<Rightarrow> fieldsLoop rs (Some (w @ [r])) acc))"

definition Fields :: "gostring \<Rightarrow> gostring list" where
  "Fields s = fieldsLoop s None []"

section \<open>float32\<close>

text \<open>
  The detector converts two non-negative counters to \<open>float32\<close> and divides them. Both
  steps round to the nearest value with a 24-bit significand, ties to even. The counters
  are far below \<open>2 ^ 127\<close> and a quotient of two of them is never subnormal, so the
  exponent range of \<open>float32\<close> plays no part. A \<open>float32\<close> value is a \<open>real\<close>; the
  conversion of a counter is an integer, kept as a \<open>nat\<close>.
\<close>

fun bitLen :: "nat \<Rightarrow> nat" where
  "bitLen n = (if n = 0 then 0 else Suc (bitLen (n div 2)))"

declare bitLen.simps [simp del]

definition roundHalfEven :: "nat \<Rightarrow> nat \<Rightarrow> nat" where
  "roundHalfEven a b =
     (let q = a div b; r = a mod b
      in if 2 * r < b then q
         else if b < 2 * r then q + 1
         else if even q then q else q + 1)"

definition float32 :: "nat \<Rightarrow> nat" where
  "float32 n =
     (if n < 16777216 then n
      else let sh = bitLen n - 24 in roundHalfEven n (2 ^ sh) * 2 ^ sh)"

text \<open>
  \<open>f32div a b\<close> is the \<open>float32\<close> quotient of two integral \<open>float32\<close> values with
  \<open>0 < b\<close>: \<open>e\<close> is the exponent of \<open>a / b\<close> (\<open>2 ^ e \<le> a / b < 2 ^ (e + 1)\<close>), and the
  quotient is rounded to a multiple of \<open>2 ^ (e - 23)\<close>. The detector divides only after it
  has returned for \<open>totalWords == 0\<close>, so \<open>b = 0\<close> does not arise.
\<close>

definition pow2 :: "int \<Rightarrow> real" where
  "pow2 k = (if 0 \<le> k then 2 ^ nat k else 1 / 2 ^ nat (- k))"

definition f32div :: "nat \<Rightarrow> nat \<Rightarrow> real" where
  "f32div a b =
     (if a = 0 then 0
      else let e0 = int (bitLen a) - int (bitLen b);
               e = (if real a < pow2 e0 * real b then e0 - 1 else e0);
               s = 23 - e;
               m = (if 0 \<le> s then roundHalfEven (a * 2 ^ nat s) b
                    else roundHalfEven a (b * 2 ^ nat (- s)))
           in real m * pow2 (- s))"

section \<open>The reference detector\<close>

record LanguageAlternative =
  alt_LanguageCode :: gostring
  alt_Confidence :: real

text \<open>The table \<open>languageWords\<close>, a Go map literal: language code to stop-words.\<close>

definition languageWords :: "gostring \<rightharpoonup> gostring list" where
  "languageWords = map_of
     [(gostr ''en'', map gostr [''the'', ''and'', ''is'', ''in'', ''to'', ''of'', ''a'', ''that'', ''it'', ''with'']),
      (gostr ''es'', map gostr [''el'', ''la'', ''de'', ''que'', ''y'', ''a'', ''en'', ''un'', ''es'', ''se'']),
      (gostr ''fr'', [gostr ''le'', gostr ''de'', gostr ''et'', [224], gostr ''un'', gostr ''il'',
                     234 # gostr ''tre'', gostr ''et'', gostr ''en'', gostr ''avoir'']),
      (gostr ''de'', map gostr [''der'', ''die'', ''und'', ''in'', ''den'', ''von'', ''zu'', ''das'', ''mit'', ''sich'']),
      (gostr ''it'', map gostr [''il'', ''di'', ''che'', ''e'', ''la'', ''per'', ''un'', ''in'', ''con'', ''da''])]"

definition languageCodes :: "gostring list" where
  "languageCodes = map gostr [''en'', ''es'', ''fr'', ''de'', ''it'']"

text \<open>
  Go visits the keys of a map in an order the language leaves open and that changes from
  one \<open>range\<close> statement to the next. A \<open>range\<close> over a map \<open>m\<close> is modelled with the order
  as an argument: \<open>order\<close> lists the keys, and the loop sees the entries of \<open>m\<close> in that
  order. An order is valid when it lists every language code once; the keys of \<open>scores\<close>
  are language codes, so each order of its keys is given by some valid order.
\<close>

definition rangeMap :: "'k list \<Rightarrow> ('k \<rightharpoonup> 'v) \<Rightarrow> ('k \<times> 'v) list" where
  "rangeMap order m = List.map_filter (\<lambda>k. map_option (Pair k) (m k)) order"

definition validOrder :: "gostring list \<Rightarrow> bool" where
  "validOrder order = (distinct order \<and> set order = set languageCodes)"

text \<open>
  The iteration orders of one call of \<open>detectLanguage\<close>: \<open>wordOrder i\<close> for the \<open>range\<close>
  over \<open>languageWords\<close> while word number \<open>i\<close> is scored, \<open>bestOrder\<close> and \<open>altOrder\<close> for
  the two loops over \<open>scores\<close>.
\<close>

record schedule =
  wordOrder :: "nat \<Rightarrow> gostring list"
  bestOrder :: "gostring list"
  altOrder :: "gostring list"

definition validSchedule :: "schedule \<Rightarrow> bool" where
  "validSchedule sch =
     ((\<forall>i. validOrder (wordOrder sch i)) \<and> validOrder (bestOrder sch) \<and> validOrder (altOrder sch))"

text \<open>\<open>scores[lang]++\<close> on a Go map: a missing key reads as 0.\<close>

definition increment :: "(gostring \<rightharpoonup> nat) \<Rightarrow> gostring \<Rightarrow> (gostring \<rightharpoonup> nat)" where
  "increment scores lang = scores(lang \<mapsto> (case scores lang of None \<Rightarrow> 0 | Some n \<Rightarrow> n) + 1)"

text \<open>The innermost loop: one word against the stop-words of one language.\<close>

fun matchLangWords :: "gostring \<Rightarrow> gostring \<Rightarrow> gostring list \<Rightarrow> (gostring \<rightharpoonup> nat) \<Rightarrow> (gostring \<rightharpoonup> nat)" where
  "matchLangWords word lang [] scores = scores"
| "matchLangWords word lang (langWord # rest) scores =
     matchLangWords word lang rest (if word = langWord then increment scores lang else scores)"

text \<open>The middle loop: one word against every entry of \<open>languageWords\<close>.\<close>

fun matchLanguages :: "gostring \<Rightarrow> (gostring \<times> gostring list) list \<Rightarrow> (gostring \<rightharpoonup> nat) \<Rightarrow> (gostring \<rightharpoonup> nat)" where
  "matchLanguages word [] scores = scores"
| "matchLanguages word ((lang, langWords) # rest) scores =
     matchLanguages word rest (matchLangWords word lang langWords scores)"

text \<open>
  The outer loop over the words, from word number \<open>i\<close> on; the state is \<open>scores\<close> and
  \<open>totalWords\<close>. The counters are Go \<open>int\<close>s (64 bits); they are bounded by ten times the
  number of words of a string held in memory and cannot wrap, so they are \<open>nat\<close>s.
\<close>

fun scoreWords :: "(nat \<Rightarrow> gostring list) \<Rightarrow> nat \<Rightarrow> gostring list \<Rightarrow> (gostring \<rightharpoonup> nat) \<times> nat \<Rightarrow> (gostring \<rightharpoonup> nat) \<times> nat" where
  "scoreWords wo i [] st = st"
| "scoreWords wo i (word # rest) (scores, totalWords) =
     scoreWords wo (Suc i) rest
       (matchLanguages word (rangeMap (wo i) languageWords) scores, totalWords + 1)"

text \<open>The loop that finds the best match; the state is \<open>(bestLang, bestScore)\<close>.\<close>

fun findBest :: "(gostring \<times> nat) list \<Rightarrow> gostring \<times> nat \<Rightarrow> gostring \<times> nat" where
  "findBest [] best = best"
| "findBest ((lang, score) # rest) (bestLang, bestScore) =
     findBest rest (if bestScore < score then (lang, score) else (bestLang, bestScore))"

definition clampConfidence :: "real \<Rightarrow> real" where
  "clampConfidence c = (if 1 < c then 1 else c)"

text \<open>The loop that collects the alternatives, appending to \<open>alternatives\<close>.\<close>

fun collectAlternatives :: "(gostring \<times> nat) list \<Rightarrow> gostring \<Rightarrow> nat \<Rightarrow> LanguageAlternative list \<Rightarrow> LanguageAlternative list" where
  "collectAlternatives [] bestLang totalWords alternatives = alternatives"
| "collectAlternatives ((lang, score) # rest) bestLang totalWords alternatives =
     collectAlternatives rest bestLang totalWords
       (if lang \<noteq> bestLang \<and> 0 < score
        then alternatives @
               [\<lparr>alt_LanguageCode = lang,
                 alt_Confidence = clampConfidence (f32div (float32 score) (float32 totalWords))\<rparr>]
        else alternatives)"

definition detectLanguage :: "(rune \<Rightarrow> rune) \<Rightarrow> schedule \<Rightarrow> gostring \<Rightarrow> gostring \<times> real \<times> LanguageAlternative list" where
  "detectLanguage caseTable sch text =
     (let words = Fields (ToLower caseTable text);
          (scores, totalWords) = scoreWords (wordOrder sch) 0 words (Map.empty, 0)
      in if totalWords = 0 then (gostr ''unknown'', 0, [])
         else let (bestLang, bestScore) = findBest (rangeMap (bestOrder sch) scores) (gostr ''en'', 0);
                  confidence = clampConfidence (f32div (float32 bestScore) (float32 totalWords));
                  alternatives = collectAlternatives (rangeMap (altOrder sch) scores) bestLang totalWords []
              in (bestLang, confidence, alternatives))"

section \<open>The server's handler\<close>

text \<open>
  The messages of the service. The fields keep their Go names behind a prefix for the
  message (\<open>req_\<close>, \<open>resp_\<close>, \<open>meta_\<close>), since several messages share field names.
\<close>

record DetectLanguageRequest =
  req_Text :: gostring
  req_DocumentId :: gostring
  req_Metadata :: "gostring \<rightharpoonup> gostring"

record ProcessingMetadata =
  meta_ProcessingTimeMs :: int
  meta_ServiceVersion :: gostring
  meta_ModelVersion :: gostring
  meta_Provider :: gostring

record DetectLanguageResponse =
  resp_LanguageCode :: gostring
  resp_Confidence :: real
  resp_Alternatives :: "LanguageAlternative list"
  resp_DocumentId :: gostring
  resp_Metadata :: "ProcessingMetadata option"

text \<open>A gRPC error: a status code and a message.\<close>

datatype rpcError = RpcError nat gostring

text \<open>
  \<open>server.DetectLanguage\<close> returns a pointer and an \<open>error\<close>: \<open>None\<close> is \<open>nil\<close>. The clock
  is read before and after the detection; \<open>elapsedMs\<close> is what
  \<open>processingTime.Milliseconds()\<close> gives. gRPC decodes the request into a fresh message, so
  \<open>req\<close> is never \<open>nil\<close>.
\<close>

definition DetectLanguage :: "(rune \<Rightarrow> rune) \<Rightarrow> schedule \<Rightarrow> int \<Rightarrow> DetectLanguageRequest \<Rightarrow> DetectLanguageResponse option \<times> rpcError option" where
  "DetectLanguage caseTable sch elapsedMs req =
     (let (languageCode, confidence, alternatives) = detectLanguage caseTable sch (req_Text req)
      in (Some \<lparr>resp_LanguageCode = languageCode,
                resp_Confidence = confidence,
                resp_Alternatives = alternatives,
                resp_DocumentId = req_DocumentId req,
                resp_Metadata = Some \<lparr>meta_ProcessingTimeMs = elapsedMs,
                                       meta_ServiceVersion = gostr ''1.0.0'',
                                       meta_ModelVersion = gostr ''simple-word-based-v1.0'',
                                       meta_Provider = gostr ''ld_proto_example''\<rparr>\<rparr>,
          None))"

text \<open>The map literal's order of keys, and its reverse: two of the orders Go may pick.\<close>

definition literalOrder :: schedule where
  "literalOrder = \<lparr>wordOrder = (\<lambda>i. languageCodes), bestOrder = languageCodes, altOrder = languageCodes\<rparr>"

definition reverseOrder :: schedule where
  "reverseOrder = \<lparr>wordOrder = (\<lambda>i. rev languageCodes), bestOrder = rev languageCodes,
                    altOrder = rev languageCodes\<rparr>"

section \<open>The third-party service\<close>

record Document =
  doc_ID :: gostring
  doc_Content :: gostring

record LocalAlternative =
  local_Language :: gostring
  local_Confidence :: real

record DocumentInfo =
  info_ID :: gostring
  info_Content :: gostring
  info_Language :: gostring
  info_Confidence :: real
  info_ProcessedAt :: nat
  info_Alternatives :: "LocalAlternative list"
  info_ProcessingTime :: int
  info_ServiceVersion :: gostring
  info_ModelVersion :: gostring
  info_Provider :: gostring

text \<open>
  What the service reaches outside itself, over a state \<open>'w\<close> of the outside world: the
  gRPC client stub (an error or a response, never both), the clock, the formatting of a
  time as RFC 3339, and the logger. The context \<open>ctx\<close> is handed to the stub unchanged and
  is part of that world.
\<close>

record 'w environment =
  languageClient :: "DetectLanguageRequest \<Rightarrow> 'w \<Rightarrow> (rpcError + DetectLanguageResponse) \<times> 'w"
  timeNow :: "'w \<Rightarrow> nat \<times> 'w"
  formatRFC3339 :: "nat \<Rightarrow> gostring"
  logPrintf :: "gostring \<Rightarrow> rpcError \<Rightarrow> 'w \<Rightarrow> 'w"

text \<open>
  \<open>len(content)\<close> counts the bytes of the UTF-8 encoding. \<open>string(rune(n))\<close> converts the
  length to an \<open>int32\<close> and that to the string of the one code point, or of U+FFFD when it
  is none (negative, a surrogate, or above U+10FFFF).
\<close>

definition utf8Width :: "rune \<Rightarrow> nat" where
  "utf8Width r = (if r < 128 then 1 else if r < 2048 then 2 else if r < 65536 then 3 else 4)"

definition byteLen :: "gostring \<Rightarrow> nat" where
  "byteLen s = sum_list (map utf8Width s)"

definition stringOfRune :: "nat \<Rightarrow> gostring" where
  "stringOfRune n =
     (let r = n mod 4294967296
      in if r < 55296 \<or> (57344 \<le> r \<and> r \<le> 1114111) then [r] else [65533])"

text \<open>\<open>time.Duration(ms) * time.Millisecond\<close> is an \<open>int64\<close> product, which wraps.\<close>

definition wrapInt64 :: "int \<Rightarrow> int" where
  "wrapInt64 x = (x + 9223372036854775808) mod 18446744073709551616 - 9223372036854775808"

definition ProcessDocument :: "'w environment \<Rightarrow> gostring \<Rightarrow> gostring \<Rightarrow> 'w \<Rightarrow> (rpcError + DocumentInfo) \<times> 'w" where
  "ProcessDocument env content docID w =
     (let (t1, w1) = timeNow env w;
          req = \<lparr>req_Text = content,
                 req_DocumentId = docID,
                 req_Metadata = map_of
                   [(gostr ''service'', gostr ''third_party_service''),
                    (gostr ''version'', gostr ''1.0.0''),
                    (gostr ''timestamp'', formatRFC3339 env t1),
                    (gostr ''content_len'', stringOfRune (byteLen content))]\<rparr>
      in case languageClient env req w1 of
           (Inl err, w2) \<Rightarrow> (Inl err, w2)
         | (Inr resp, w2) \<Rightarrow>
             (let (t2, w3) = timeNow env w2;
                  docInfo = \<lparr>info_ID = docID,
                             info_Content = content,
                             info_Language = resp_LanguageCode resp,
                             info_Confidence = resp_Confidence resp,
                             info_ProcessedAt = t2,
                             info_Alternatives =
                               map (\<lambda>alt. \<lparr>local_Language = alt_LanguageCode alt,
                                            local_Confidence = alt_Confidence alt\<rparr>)
                                   (resp_Alternatives resp),
                             info_ProcessingTime = 0,
                             info_ServiceVersion = [],
                             info_ModelVersion = [],
                             info_Provider = []\<rparr>
              in (Inr (case resp_Metadata resp of
                         None \<Rightarrow> docInfo
                       | Some m \<Rightarrow> docInfo
                           \<lparr>info_ProcessingTime := wrapInt64 (meta_ProcessingTimeMs m * 1000000),
                            info_ServiceVersion := meta_ServiceVersion m,
                            info_ModelVersion := meta_ModelVersion m,
                            info_Provider := meta_Provider m\<rparr>),
                  w3)))"

text \<open>
  The loop of \<open>BatchProcessDocuments\<close>; the state is \<open>results\<close> and the world. A failed
  document is logged and the loop goes on with the next one.
\<close>

fun batchLoop :: "'w environment \<Rightarrow> Document list \<Rightarrow> DocumentInfo list \<Rightarrow> 'w \<Rightarrow> DocumentInfo list \<times> 'w" where
  "batchLoop env [] results w = (results, w)"
| "batchLoop env (doc # rest) results w =
     (case ProcessDocument env (doc_Content doc) (doc_ID doc) w of
        (Inl err, w1) \<Rightarrow> batchLoop env rest results (logPrintf env (doc_ID doc) err w1)
      | (Inr docInfo, w1) \<Rightarrow> batchLoop env rest (results @ [docInfo]) w1)"

definition BatchProcessDocuments :: "'w environment \<Rightarrow> Document list \<Rightarrow> 'w \<Rightarrow> (DocumentInfo list \<times> rpcError option) \<times> 'w" where
  "BatchProcessDocuments env documents w =
     (let (results, w1) = batchLoop env documents [] w in ((results, None), w1))"

text \<open>
  For the statement about the batch: the outcome of each document's call, one after the
  other, each call starting in the world the one before it (and its log line) left.
\<close>

fun attempts :: "'w environment \<Rightarrow> Document list \<Rightarrow> 'w \<Rightarrow> (rpcError + DocumentInfo) list" where
  "attempts env [] w = []"
| "attempts env (doc # rest) w =
     (case ProcessDocument env (doc_Content doc) (doc_ID doc) w of
        (Inl err, w1) \<Rightarrow> Inl err # attempts env rest (logPrintf env (doc_ID doc) err w1)
      | (Inr docInfo, w1) \<Rightarrow> Inr docInfo # attempts env rest w1)"

definition successes :: "('e + 'a) list \<Rightarrow> 'a list" where
  "successes rs = List.map_filter (\<lambda>r. case r of Inl e \<Rightarrow> None | Inr x \<Rightarrow> Some x) rs"

definition failures :: "('e + 'a) list \<Rightarrow> 'e list" where
  "failures rs = List.map_filter (\<lambda>r. case r of Inl e \<Rightarrow> Some e | Inr x \<Rightarrow> None) rs"

section \<open>Vocabulary of the statements\<close>

text \<open>
  The stop-words of a language, and the number of hits of a text's words in them: every
  pair of an occurrence of a word and an equal entry of the list counts, so an entry
  listed twice counts twice. \<open>lookupScore\<close> reads a Go map of counters, 0 for a missing
  key.
\<close>

definition stopWords :: "gostring \<Rightarrow> gostring list" where
  "stopWords lang = (case languageWords lang of None \<Rightarrow> [] | Some langWords \<Rightarrow> langWords)"

definition hits :: "gostring list \<Rightarrow> gostring \<Rightarrow> nat" where
  "hits words lang = sum_list (map (count_list (stopWords lang)) words)"

definition lookupScore :: "(gostring \<rightharpoonup> nat) \<Rightarrow> gostring \<Rightarrow> nat" where
  "lookupScore scores lang = (case scores lang of None \<Rightarrow> 0 | Some n \<Rightarrow> n)"

text \<open>Two different languages share the highest number of hits, and it is not 0.\<close>

definition tie :: "gostring list \<Rightarrow> bool" where
  "tie words =
     (\<exists>l1\<in>set languageCodes. \<exists>l2\<in>set languageCodes.
        l1 \<noteq> l2 \<and> 0 < hits words l1 \<and> hits words l1 = hits words l2 \<and>
        (\<forall>l\<in>set languageCodes. hits words l \<le> hits words l1))"

text \<open>
  The highest number of hits of any language, and the language that wins a call whose
  loop over \<open>scores\<close> visits the keys in \<open>order\<close>: the first one in that order whose hits
  are the highest and not 0, and the default \<open>en\<close> when there is none.
\<close>

definition topHits :: "gostring list \<Rightarrow> nat" where
  "topHits words = foldr max (map (hits words) languageCodes) 0"

definition leader :: "gostring list \<Rightarrow> gostring list \<Rightarrow> gostring" where
  "leader order words =
     (case filter (\<lambda>l. 0 < hits words l \<and> hits words l = topHits words) order of
        [] \<Rightarrow> gostr ''en''
      | l # _ \<Rightarrow> l)"

section \<open>Concrete inputs\<close>

text \<open>
  A case table without entries. It stands in for the library's table on inputs whose
  runes are ASCII or have no lower-case form, where the table changes nothing.
\<close>

definition identityCaseTable :: "rune \<Rightarrow> rune" where
  "identityCaseTable r = r"

definition exampleRequest :: "gostring \<Rightarrow> DetectLanguageRequest" where
  "exampleRequest text = \<lparr>req_Text = text, req_DocumentId = gostr ''doc-123'', req_Metadata = Map.empty\<rparr>"

text \<open>
  An outside world for the batch: the state counts the calls made so far, the stub reaches
  the reference server, and call number 1 (the second) is lost on the way.
\<close>

definition flakyEnvironment :: "nat environment" where
  "flakyEnvironment =
     \<lparr>languageClient = (\<lambda>req w.
          (if w = 1 then Inl (RpcError 14 (gostr ''unavailable''))
           else (case DetectLanguage identityCaseTable literalOrder 0 req of
                   (Some resp, None) \<Rightarrow> Inr resp
                 | (_, Some err) \<Rightarrow> Inl err
                 | (None, None) \<Rightarrow> Inl (RpcError 13 (gostr ''internal''))),
           Suc w)),
      timeNow = (\<lambda>w. (w, w)),
      formatRFC3339 = (\<lambda>t. gostr ''2025-01-01T00:00:00Z''),
      logPrintf = (\<lambda>docID err w. w)\<rparr>"

definition fourDocuments :: "Document list" where
  "fourDocuments =
     [\<lparr>doc_ID = gostr ''doc-001'', doc_Content = gostr ''Hello, world!''\<rparr>,
      \<lparr>doc_ID = gostr ''doc-002'', doc_Content = gostr ''Hola, mundo!''\<rparr>,
      \<lparr>doc_ID = gostr ''doc-003'', doc_Content = gostr ''Bonjour le monde!''\<rparr>,
      \<lparr>doc_ID = gostr ''doc-004'', doc_Content = gostr ''Hallo Welt!''\<rparr>]"

section \<open>Facts about the parts\<close>

lemma pow2_pos: "0 < pow2 k" by (simp add: pow2_def)

lemma f32div_nonneg: "0 \<le> f32div a b"
  by (simp add: f32div_def Let_def pow2_pos less_imp_le)

lemma f32div_zero: "f32div 0 b = 0" by (simp add: f32div_def)
lemma float32_zero: "float32 0 = 0" by (simp add: float32_def)

lemma clampConfidence_range: "0 \<le> c \<Longrightarrow> 0 \<le> clampConfidence c \<and> clampConfidence c \<le> 1"
  by (simp add: clampConfidence_def)

lemma collectAlternatives_code:
  "a \<in> set (collectAlternatives ents bestLang tw acc) \<Longrightarrow>
     a \<in> set acc \<or> alt_LanguageCode a \<noteq> bestLang"
  by (induction ents bestLang tw acc rule: collectAlternatives.induct) (auto split: if_splits)

lemma collectAlternatives_confidence:
  "a \<in> set (collectAlternatives ents bestLang tw acc) \<Longrightarrow>
     a \<in> set acc \<or> (0 \<le> alt_Confidence a \<and> alt_Confidence a \<le> 1)"
  by (induction ents bestLang tw acc rule: collectAlternatives.induct)
     (auto split: if_splits simp: clampConfidence_range f32div_nonneg)

lemma scoreWords_total: "snd (scoreWords wo i ws (sc, t)) = t + length ws"
  by (induction ws arbitrary: sc t i) auto

lemma fieldsLoop_spaces: "\<forall>r\<in>set s. isSpace r \<Longrightarrow> fieldsLoop s None acc = acc"
  by (induction s) auto

lemma fieldsLoop_acc: "fieldsLoop s cur acc = acc @ fieldsLoop s cur []"
proof (induction s arbitrary: cur acc)
  case Nil show ?case by (simp split: option.splits)
next
  case (Cons r rs)
  show ?case
    using Cons.IH[of None acc] Cons.IH[of "Some w" acc for w] Cons.IH[of None "acc @ [w]" for w]
      Cons.IH[of None "[w]" for w]
    by (simp split: option.splits)
qed

lemma fieldsLoop_open: "fieldsLoop s (Some w) acc \<noteq> []"
proof (induction s arbitrary: w acc)
  case Nil show ?case by simp
next
  case (Cons r rs)
  have "fieldsLoop rs None (acc @ [w]) \<noteq> []"
    using fieldsLoop_acc[of rs None "acc @ [w]"] by simp
  then show ?case using Cons.IH by simp
qed

lemma Fields_empty_iff: "Fields s = [] \<longleftrightarrow> (\<forall>r\<in>set s. isSpace r)"
proof
  assume "\<forall>r\<in>set s. isSpace r"
  then show "Fields s = []" unfolding Fields_def by (rule fieldsLoop_spaces)
next
  assume e: "Fields s = []"
  have "fieldsLoop t None [] = [] \<Longrightarrow> \<forall>r\<in>set t. isSpace r" for t
    by (induction t) (auto simp: fieldsLoop_open split: if_splits)
  with e show "\<forall>r\<in>set s. isSpace r" by (simp add: Fields_def)
qed

text \<open>The rounding on values whose \<open>float32\<close> is known.\<close>

lemma float32_exact: "n < 16777216 \<Longrightarrow> float32 n = n"
  by (simp add: float32_def)

lemma float32_ties_to_even:
  "float32 16777217 = 16777216" "float32 16777219 = 16777220" "float32 33554434 = 33554432"
  by (simp_all add: float32_def bitLen.simps roundHalfEven_def Let_def)

lemma f32div_known_values:
  "f32div 1 2 = 1 / 2" "f32div 1 3 = 11184811 / 33554432" "f32div 1 10 = 13421773 / 134217728"
  "f32div 4 3 = 11184811 / 8388608"
  by (simp_all add: f32div_def bitLen.simps pow2_def roundHalfEven_def Let_def)

lemma languageCodes_distinct: "distinct languageCodes"
  by (simp add: languageCodes_def gostr_def)

lemma dom_languageWords: "dom languageWords = set languageCodes"
  by (simp add: languageWords_def languageCodes_def dom_map_of_conv_image_fst)

lemma languageWords_None: "lang \<notin> set languageCodes \<Longrightarrow> languageWords lang = None"
  using dom_languageWords by (metis domIff)

lemma languageWords_Some: "languageWords lang = Some ws \<Longrightarrow> lang \<in> set languageCodes"
  using languageWords_None by fastforce

lemma stopWords_outside: "lang \<notin> set languageCodes \<Longrightarrow> stopWords lang = []"
  using dom_languageWords by (auto simp: stopWords_def split: option.splits)

lemma rangeMap_set: "set (rangeMap order m) = {(k, v). k \<in> set order \<and> m k = Some v}"
  by (induction order) (auto simp: rangeMap_def split: option.splits)

lemma rangeMap_keys: "map fst (rangeMap order m) = filter (\<lambda>k. m k \<noteq> None) order"
  by (induction order) (auto simp: rangeMap_def split: option.splits)

lemma rangeMap_distinct: "distinct order \<Longrightarrow> distinct (map fst (rangeMap order m))"
  by (simp add: rangeMap_keys)

lemma rangeMap_map_of: "map_of (rangeMap order m) k = (if k \<in> set order then m k else None)"
  by (induction order) (auto simp: rangeMap_def split: option.splits)

lemma rangeMap_empty: "rangeMap order Map.empty = []"
  by (induction order) (auto simp: rangeMap_def)

lemma rangeMap_languageWords:
  "validOrder order \<Longrightarrow> map_of (rangeMap order languageWords) = languageWords"
  by (auto simp: rangeMap_map_of validOrder_def fun_eq_iff languageWords_None)

lemma matchLangWords_eq:
  "matchLangWords word lang langWords scores =
     (if count_list langWords word = 0 then scores
      else scores(lang \<mapsto> lookupScore scores lang + count_list langWords word))"
  by (induction langWords arbitrary: scores) (auto simp: increment_def lookupScore_def)

lemma matchLanguages_lookup:
  "distinct (map fst ents) \<Longrightarrow>
   matchLanguages word ents scores lang =
     (case map_of ents lang of
        None \<Rightarrow> scores lang
      | Some langWords \<Rightarrow>
          if count_list langWords word = 0 then scores lang
          else Some (lookupScore scores lang + count_list langWords word))"
proof (induction ents arbitrary: scores)
  case Nil show ?case by simp
next
  case (Cons e ents)
  obtain l lws where e: "e = (l, lws)" by (cases e)
  from Cons.prems e have d: "distinct (map fst ents)" and l: "l \<notin> fst ` set ents" by auto
  from l have n: "map_of ents l = None" by (simp add: map_of_eq_None_iff)
  show ?case using n by (simp add: e Cons.IH[OF d] matchLangWords_eq lookupScore_def split: option.splits)
qed

lemma matchLanguages_valid:
  assumes "validOrder order"
  shows "matchLanguages word (rangeMap order languageWords) scores lang =
     (if count_list (stopWords lang) word = 0 then scores lang
      else Some (lookupScore scores lang + count_list (stopWords lang) word))"
proof -
  have "distinct (map fst (rangeMap order languageWords))"
    using assms by (simp add: rangeMap_distinct validOrder_def)
  then show ?thesis
    by (simp add: matchLanguages_lookup rangeMap_languageWords[OF assms] stopWords_def split: option.splits)
qed

lemma scoreWords_scores:
  assumes "\<forall>i. validOrder (wo i)"
  shows "fst (scoreWords wo i words (scores, t)) lang =
     (if hits words lang = 0 then scores lang else Some (lookupScore scores lang + hits words lang))"
  using assms
proof (induction words arbitrary: scores t i)
  case Nil show ?case by (simp add: hits_def)
next
  case (Cons w ws)
  have v: "validOrder (wo i)" using Cons.prems by simp
  show ?case
    by (simp add: Cons.IH[OF Cons.prems] matchLanguages_valid[OF v] hits_def lookupScore_def)
qed

lemma matchLanguages_no_match:
  "\<forall>(l, lws)\<in>set ents. word \<notin> set lws \<Longrightarrow> matchLanguages word ents scores = scores"
  by (induction ents arbitrary: scores) (auto simp: matchLangWords_eq)

lemma matchLanguages_dom:
  "dom (matchLanguages word ents scores) \<subseteq> fst ` set ents \<union> dom scores"
proof (induction ents arbitrary: scores)
  case Nil show ?case by simp
next
  case (Cons e ents)
  obtain l lws where e: "e = (l, lws)" by (cases e)
  show ?case using Cons.IH[of "matchLangWords word l lws scores"]
    by (auto simp: e matchLangWords_eq split: if_splits)
qed

lemma scoreWords_dom:
  "dom (fst (scoreWords wo i words (scores, t))) \<subseteq> set languageCodes \<union> dom scores"
proof (induction words arbitrary: scores t i)
  case Nil show ?case by simp
next
  case (Cons w ws)
  have "fst ` set (rangeMap (wo i) languageWords) \<subseteq> set languageCodes"
    by (auto simp: rangeMap_set dest: languageWords_Some)
  then have A: "dom (matchLanguages w (rangeMap (wo i) languageWords) scores) \<subseteq> set languageCodes \<union> dom scores"
    using matchLanguages_dom[of w "rangeMap (wo i) languageWords" scores] by blast
  have B: "dom (fst (scoreWords wo (Suc i) ws (matchLanguages w (rangeMap (wo i) languageWords) scores, t + 1)))
      \<subseteq> set languageCodes \<union> dom (matchLanguages w (rangeMap (wo i) languageWords) scores)"
    by (rule Cons.IH)
  from A B have "dom (fst (scoreWords wo (Suc i) ws (matchLanguages w (rangeMap (wo i) languageWords) scores, t + 1)))
      \<subseteq> set languageCodes \<union> dom scores" by blast
  then show ?case by simp
qed

lemma findBest_cases:
  "findBest ents (bl, bs) = (bl', bs') \<Longrightarrow>
     (bl' = bl \<and> bs' = bs) \<or> ((bl', bs') \<in> set ents \<and> bs < bs')"
proof (induction ents arbitrary: bl bs)
  case Nil then show ?case by simp
next
  case (Cons e ents)
  obtain l s where e: "e = (l, s)" by (cases e)
  show ?case
  proof (cases "bs < s")
    case True
    with Cons.prems e have "findBest ents (l, s) = (bl', bs')" by simp
    from Cons.IH[OF this] True e show ?thesis by auto
  next
    case False
    with Cons.prems e have "findBest ents (bl, bs) = (bl', bs')" by simp
    from Cons.IH[OF this] show ?thesis by auto
  qed
qed

lemma findBest_upper:
  "findBest ents (bl, bs) = (bl', bs') \<Longrightarrow> bs \<le> bs' \<and> (\<forall>(l, s)\<in>set ents. s \<le> bs')"
proof (induction ents arbitrary: bl bs)
  case Nil then show ?case by simp
next
  case (Cons e ents)
  obtain l s where e: "e = (l, s)" by (cases e)
  show ?case
  proof (cases "bs < s")
    case True
    with Cons.prems e have "findBest ents (l, s) = (bl', bs')" by simp
    from Cons.IH[OF this] True e show ?thesis by auto
  next
    case False
    with Cons.prems e have "findBest ents (bl, bs) = (bl', bs')" by simp
    from Cons.IH[OF this] False e show ?thesis by auto
  qed
qed

lemma detectLanguage_no_words:
  "Fields (ToLower ct text) = [] \<Longrightarrow> detectLanguage ct sch text = (gostr ''unknown'', 0, [])"
  by (simp add: detectLanguage_def)

lemma detectLanguage_some_words:
  assumes "Fields (ToLower ct text) \<noteq> []"
  shows "detectLanguage ct sch text =
     (let words = Fields (ToLower ct text);
          scores = fst (scoreWords (wordOrder sch) 0 words (Map.empty, 0));
          best = findBest (rangeMap (bestOrder sch) scores) (gostr ''en'', 0)
      in (fst best,
          clampConfidence (f32div (float32 (snd best)) (float32 (length words))),
          collectAlternatives (rangeMap (altOrder sch) scores) (fst best) (length words) []))"
  using assms scoreWords_total[of "wordOrder sch" 0 "Fields (ToLower ct text)" Map.empty 0]
  by (simp add: detectLanguage_def Let_def case_prod_beta)

lemma DetectLanguage_result:
  "DetectLanguage ct sch ms req =
     (Some \<lparr>resp_LanguageCode = fst (detectLanguage ct sch (req_Text req)),
            resp_Confidence = fst (snd (detectLanguage ct sch (req_Text req))),
            resp_Alternatives = snd (snd (detectLanguage ct sch (req_Text req))),
            resp_DocumentId = req_DocumentId req,
            resp_Metadata = Some \<lparr>meta_ProcessingTimeMs = ms,
                                   meta_ServiceVersion = gostr ''1.0.0'',
                                   meta_ModelVersion = gostr ''simple-word-based-v1.0'',
                                   meta_Provider = gostr ''ld_proto_example''\<rparr>\<rparr>,
      None)"
  by (simp add: DetectLanguage_def case_prod_beta)

lemma detectLanguage_confidence_range:
  "0 \<le> fst (snd (detectLanguage ct sch text)) \<and> fst (snd (detectLanguage ct sch text)) \<le> 1"
proof (cases "Fields (ToLower ct text) = []")
  case True then show ?thesis by (simp add: detectLanguage_no_words)
next
  case False then show ?thesis
    by (simp add: detectLanguage_some_words Let_def clampConfidence_range f32div_nonneg)
qed

lemma detectLanguage_alternatives_range:
  assumes "a \<in> set (snd (snd (detectLanguage ct sch text)))"
  shows "0 \<le> alt_Confidence a \<and> alt_Confidence a \<le> 1"
proof (cases "Fields (ToLower ct text) = []")
  case True with assms show ?thesis by (simp add: detectLanguage_no_words)
next
  case False with assms show ?thesis
    using collectAlternatives_confidence[of a _ _ _ "[]"]
    by (simp add: detectLanguage_some_words Let_def)
qed

lemma detectLanguage_alternatives_code:
  assumes "a \<in> set (snd (snd (detectLanguage ct sch text)))"
  shows "alt_LanguageCode a \<noteq> fst (detectLanguage ct sch text)"
proof (cases "Fields (ToLower ct text) = []")
  case True with assms show ?thesis by (simp add: detectLanguage_no_words)
next
  case False with assms show ?thesis
    using collectAlternatives_code[of a _ _ _ "[]"]
    by (simp add: detectLanguage_some_words Let_def)
qed

lemma scores_dom:
  "scores = fst (scoreWords wo 0 words (Map.empty, 0)) \<Longrightarrow> scores lang = Some n \<Longrightarrow> lang \<in> set languageCodes"
  using scoreWords_dom[of wo 0 words Map.empty 0] by auto

lemma detectLanguage_code:
  "fst (detectLanguage ct sch text) = gostr ''unknown'' \<and> Fields (ToLower ct text) = [] \<or>
   fst (detectLanguage ct sch text) \<in> set languageCodes \<and> Fields (ToLower ct text) \<noteq> []"
proof (cases "Fields (ToLower ct text) = []")
  case True then show ?thesis by (simp add: detectLanguage_no_words)
next
  case False
  define scores where "scores = fst (scoreWords (wordOrder sch) 0 (Fields (ToLower ct text)) (Map.empty, 0))"
  obtain bl bs where b: "findBest (rangeMap (bestOrder sch) scores) (gostr ''en'', 0) = (bl, bs)"
    by (cases "findBest (rangeMap (bestOrder sch) scores) (gostr ''en'', 0)")
  have en: "gostr ''en'' \<in> set languageCodes" by (simp add: languageCodes_def)
  from findBest_cases[OF b] have "bl \<in> set languageCodes"
    using en scores_dom[OF scores_def] by (auto simp: rangeMap_set)
  with False b show ?thesis
    by (simp add: detectLanguage_some_words Let_def scores_def[symmetric])
qed

lemma unknown_not_code: "gostr ''unknown'' \<notin> set languageCodes"
  by (simp add: languageCodes_def gostr_def)

lemma codes_nonempty: "l \<in> set languageCodes \<Longrightarrow> l \<noteq> []"
  by (auto simp: languageCodes_def gostr_def)

lemma detectLanguage_no_match:
  assumes w: "Fields (ToLower ct text) \<noteq> []"
    and n: "\<forall>word\<in>set (Fields (ToLower ct text)). \<forall>lang\<in>set languageCodes. word \<notin> set (stopWords lang)"
  shows "detectLanguage ct sch text = (gostr ''en'', 0, [])"
proof -
  have step: "matchLanguages word (rangeMap order languageWords) scores = scores"
    if "word \<in> set (Fields (ToLower ct text))" for word order scores
  proof (rule matchLanguages_no_match, clarify)
    fix l lws assume "(l, lws) \<in> set (rangeMap order languageWords)" and i: "word \<in> set lws"
    then have s: "languageWords l = Some lws" by (simp add: rangeMap_set)
    then have "l \<in> set languageCodes" by (rule languageWords_Some)
    with n that have "word \<notin> set (stopWords l)" by blast
    with s i show False by (simp add: stopWords_def)
  qed
  have loop: "set ws \<subseteq> set (Fields (ToLower ct text)) \<Longrightarrow> fst (scoreWords wo i ws (scores, t)) = scores"
    for ws wo i scores t
    by (induction ws arbitrary: i t) (auto simp: step)
  have "fst (scoreWords (wordOrder sch) 0 (Fields (ToLower ct text)) (Map.empty, 0)) = Map.empty"
    by (rule loop) simp
  with w show ?thesis
    by (simp add: detectLanguage_some_words Let_def rangeMap_empty clampConfidence_def float32_zero f32div_zero)
qed

lemma valid_scores:
  assumes "validSchedule sch"
  shows "fst (scoreWords (wordOrder sch) 0 words (Map.empty, 0)) =
           (\<lambda>l. if hits words l = 0 then None else Some (hits words l))"
proof -
  have "\<forall>i. validOrder (wordOrder sch i)" using assms by (simp add: validSchedule_def)
  from scoreWords_scores[OF this] show ?thesis by (simp add: fun_eq_iff lookupScore_def)
qed

lemma findBest_valid:
  assumes v: "validOrder order"
    and b: "findBest (rangeMap order (\<lambda>l. if hits words l = 0 then None else Some (hits words l)))
              (gostr ''en'', 0) = (bl, bs)"
  shows "(\<forall>l\<in>set languageCodes. hits words l \<le> bs) \<and>
         (bs = 0 \<and> bl = gostr ''en'' \<or> bl \<in> set languageCodes \<and> hits words bl = bs \<and> 0 < bs)"
proof -
  have o: "set order = set languageCodes" using v by (simp add: validOrder_def)
  have "hits words l \<le> bs" if "l \<in> set languageCodes" for l
  proof (cases "hits words l = 0")
    case True then show ?thesis by simp
  next
    case False
    with that o have "(l, hits words l) \<in> set (rangeMap order (\<lambda>l. if hits words l = 0 then None else Some (hits words l)))"
      by (simp add: rangeMap_set)
    with findBest_upper[OF b] show ?thesis by blast
  qed
  moreover have "bs = 0 \<and> bl = gostr ''en'' \<or> bl \<in> set languageCodes \<and> hits words bl = bs \<and> 0 < bs"
    using findBest_cases[OF b] o by (auto simp: rangeMap_set split: if_splits)
  ultimately show ?thesis by blast
qed

lemma detectLanguage_schedules:
  assumes v1: "validSchedule s1" and v2: "validSchedule s2"
  shows "fst (snd (detectLanguage ct s1 text)) = fst (snd (detectLanguage ct s2 text)) \<and>
         (\<not> tie (Fields (ToLower ct text)) \<longrightarrow> fst (detectLanguage ct s1 text) = fst (detectLanguage ct s2 text))"
proof (cases "Fields (ToLower ct text) = []")
  case True then show ?thesis by (simp add: detectLanguage_no_words)
next
  case False
  define words where "words = Fields (ToLower ct text)"
  define scores where "scores = (\<lambda>l. if hits words l = 0 then None else Some (hits words l))"
  obtain bl1 bs1 where b1: "findBest (rangeMap (bestOrder s1) scores) (gostr ''en'', 0) = (bl1, bs1)"
    by (cases "findBest (rangeMap (bestOrder s1) scores) (gostr ''en'', 0)")
  obtain bl2 bs2 where b2: "findBest (rangeMap (bestOrder s2) scores) (gostr ''en'', 0) = (bl2, bs2)"
    by (cases "findBest (rangeMap (bestOrder s2) scores) (gostr ''en'', 0)")
  have o1: "validOrder (bestOrder s1)" and o2: "validOrder (bestOrder s2)"
    using v1 v2 by (simp_all add: validSchedule_def)
  note f1 = findBest_valid[OF o1 b1[unfolded scores_def]]
  note f2 = findBest_valid[OF o2 b2[unfolded scores_def]]
  have bs: "bs1 = bs2"
  proof (rule antisym)
    show "bs1 \<le> bs2" using f1 f2 by auto
    show "bs2 \<le> bs1" using f1 f2 by auto
  qed
  have bl: "bl1 = bl2" if "\<not> tie words"
  proof (rule ccontr)
    assume d: "bl1 \<noteq> bl2"
    with f1 f2 bs have "bl1 \<in> set languageCodes" "bl2 \<in> set languageCodes" "0 < hits words bl1"
      "hits words bl1 = hits words bl2" "\<forall>l\<in>set languageCodes. hits words l \<le> hits words bl1"
      by auto
    with d have "tie words" unfolding tie_def by blast
    with that show False by simp
  qed
  have d1: "detectLanguage ct s1 text = (bl1, clampConfidence (f32div (float32 bs1) (float32 (length words))),
              collectAlternatives (rangeMap (altOrder s1) scores) bl1 (length words) [])"
  proof -
    have "fst (scoreWords (wordOrder s1) 0 words (Map.empty, 0)) = scores"
      unfolding scores_def by (rule valid_scores[OF v1])
    then show ?thesis using False b1 unfolding words_def
      by (simp add: detectLanguage_some_words Let_def)
  qed
  have d2: "detectLanguage ct s2 text = (bl2, clampConfidence (f32div (float32 bs2) (float32 (length words))),
              collectAlternatives (rangeMap (altOrder s2) scores) bl2 (length words) [])"
  proof -
    have "fst (scoreWords (wordOrder s2) 0 words (Map.empty, 0)) = scores"
      unfolding scores_def by (rule valid_scores[OF v2])
    then show ?thesis using False b2 unfolding words_def
      by (simp add: detectLanguage_some_words Let_def)
  qed
  show ?thesis using bs bl by (simp add: d1 d2 words_def)
qed

text \<open>The loop that finds the best match keeps the first entry with the highest score.\<close>

lemma foldr_max_Max: "foldr max (map f xs) (b::nat) = Max (insert b (f ` set xs))"
proof (induction xs)
  case Nil show ?case by simp
next
  case (Cons a xs)
  have "Max (insert b (f ` set (a # xs))) = Max (insert (f a) (insert b (f ` set xs)))"
    by (simp add: insert_commute)
  also have "\<dots> = max (f a) (Max (insert b (f ` set xs)))"
    by (rule Max_insert) auto
  finally show ?case by (simp add: Cons.IH)
qed

lemma topHits_eq:
  assumes "\<forall>l\<in>set languageCodes. hits words l \<le> m"
    and "m = 0 \<or> (\<exists>l\<in>set languageCodes. hits words l = m)"
  shows "topHits words = m"
proof -
  have "Max (insert 0 (hits words ` set languageCodes)) = m"
    using assms by (intro Max_eqI) auto
  then show ?thesis by (simp add: topHits_def foldr_max_Max)
qed

lemma findBest_first:
  "findBest ents (bl, bs) = (bl', bs') \<Longrightarrow> bs < bs' \<Longrightarrow>
     \<exists>pre post. ents = pre @ (bl', bs') # post \<and> (\<forall>(l, s)\<in>set pre. s < bs')"
proof (induction ents arbitrary: bl bs)
  case Nil then show ?case by simp
next
  case (Cons e ents)
  obtain l s where e: "e = (l, s)" by (cases e)
  show ?case
  proof (cases "bs < s")
    case True
    with Cons.prems e have f: "findBest ents (l, s) = (bl', bs')" by simp
    show ?thesis
    proof (cases "s < bs'")
      case True
      from Cons.IH[OF f True] obtain pre post where
        "ents = pre @ (bl', bs') # post" "\<forall>(l, s)\<in>set pre. s < bs'" by blast
      with True e have "e # ents = (e # pre) @ (bl', bs') # post \<and> (\<forall>(l, s)\<in>set (e # pre). s < bs')"
        by simp
      then show ?thesis by (intro exI[of _ "e # pre"] exI[of _ post])
    next
      case False
      with findBest_cases[OF f] have "bl' = l \<and> bs' = s" by auto
      with e have "e # ents = [] @ (bl', bs') # ents \<and> (\<forall>(l, s)\<in>set []. s < bs')" by simp
      then show ?thesis by (intro exI[of _ "[]"] exI[of _ ents])
    qed
  next
    case False
    with Cons.prems e have f: "findBest ents (bl, bs) = (bl', bs')" by simp
    from Cons.IH[OF f Cons.prems(2)] obtain pre post where
      "ents = pre @ (bl', bs') # post" "\<forall>(l, s)\<in>set pre. s < bs'" by blast
    with False Cons.prems(2) e
    have "e # ents = (e # pre) @ (bl', bs') # post \<and> (\<forall>(l, s)\<in>set (e # pre). s < bs')"
      by simp
    then show ?thesis by (intro exI[of _ "e # pre"] exI[of _ post])
  qed
qed

lemma rangeMap_hits:
  "rangeMap order (\<lambda>l. if hits words l = 0 then None else Some (hits words l)) =
     map (\<lambda>l. (l, hits words l)) (filter (\<lambda>l. hits words l \<noteq> 0) order)"
  by (induction order) (auto simp: rangeMap_def)

lemma findBest_leader:
  assumes v: "validOrder order"
    and b: "findBest (rangeMap order (\<lambda>l. if hits words l = 0 then None else Some (hits words l)))
              (gostr ''en'', 0) = (bl, bs)"
  shows "bl = leader order words"
proof -
  note f = findBest_valid[OF v b]
  have top: "topHits words = bs" using f by (intro topHits_eq) auto
  show ?thesis
  proof (cases "bs = 0")
    case True
    with f have "bl = gostr ''en''" by auto
    moreover have "filter (\<lambda>l. 0 < hits words l \<and> hits words l = topHits words) order = []"
      using top True by (auto simp: filter_empty_conv)
    ultimately show ?thesis by (simp add: leader_def)
  next
    case False
    then have pos: "0 < bs" by simp
    from findBest_first[OF b pos] obtain pre post where
      p: "rangeMap order (\<lambda>l. if hits words l = 0 then None else Some (hits words l)) = pre @ (bl, bs) # post"
      and q: "\<forall>(l, s)\<in>set pre. s < bs" by blast
    have ents: "\<forall>(l, s)\<in>set pre. s = hits words l"
    proof -
      have "set pre \<subseteq> set (rangeMap order (\<lambda>l. if hits words l = 0 then None else Some (hits words l)))"
        unfolding p by auto
      then show ?thesis by (auto simp: rangeMap_set split: if_splits)
    qed
    have hb: "hits words bl = bs" using f pos by auto
    have "filter (\<lambda>l. 0 < hits words l \<and> hits words l = bs) order =
          filter (\<lambda>l. hits words l = bs) (filter (\<lambda>l. hits words l \<noteq> 0) order)"
      using pos by (auto intro: filter_cong)
    also have "filter (\<lambda>l. hits words l \<noteq> 0) order = map fst (pre @ (bl, bs) # post)"
      unfolding p[symmetric] rangeMap_hits by (simp add: comp_def)
    also have "filter (\<lambda>l. hits words l = bs) (map fst (pre @ (bl, bs) # post)) =
          filter (\<lambda>l. hits words l = bs) (map fst pre) @ bl # filter (\<lambda>l. hits words l = bs) (map fst post)"
      using hb by simp
    also have "filter (\<lambda>l. hits words l = bs) (map fst pre) = []"
      using q ents by (fastforce simp: filter_empty_conv)
    finally show ?thesis by (simp add: leader_def top)
  qed
qed

lemma detectLanguage_leader:
  assumes v: "validSchedule sch" and w: "Fields (ToLower ct text) \<noteq> []"
  shows "fst (detectLanguage ct sch text) = leader (bestOrder sch) (Fields (ToLower ct text))"
proof -
  define words where "words = Fields (ToLower ct text)"
  define scores where "scores = (\<lambda>l. if hits words l = 0 then None else Some (hits words l))"
  obtain bl bs where b: "findBest (rangeMap (bestOrder sch) scores) (gostr ''en'', 0) = (bl, bs)"
    by (cases "findBest (rangeMap (bestOrder sch) scores) (gostr ''en'', 0)")
  have o: "validOrder (bestOrder sch)" using v by (simp add: validSchedule_def)
  have l: "bl = leader (bestOrder sch) words"
    by (rule findBest_leader[OF o b[unfolded scores_def]])
  have "fst (scoreWords (wordOrder sch) 0 words (Map.empty, 0)) = scores"
    unfolding scores_def by (rule valid_scores[OF v])
  then have "fst (detectLanguage ct sch text) = bl"
    using w b unfolding words_def by (simp add: detectLanguage_some_words Let_def)
  with l show ?thesis by (simp add: words_def)
qed

section \<open>The statements of the specification\<close>

lemmas evaluation =
  detectLanguage_def DetectLanguage_def gostr_def Fields_def ToLower_def toLowerRune_def isSpace_def
  literalOrder_def reverseOrder_def languageCodes_def languageWords_def rangeMap_def
  increment_def float32_def clampConfidence_def f32div_def bitLen.simps pow2_def roundHalfEven_def
  Let_def exampleRequest_def identityCaseTable_def


text \<open>
  Claim C7. For every request the response's \<open>document_id\<close> is the request's, rune for
  rune; the empty identifier is one of the cases.
\<close>

theorem DetectLanguage_echoes_document_id:
  "\<exists>resp. DetectLanguage ct sch ms req = (Some resp, None) \<and> resp_DocumentId resp = req_DocumentId req"
  by (simp add: DetectLanguage_result)

text \<open>
  Claim C6. For every request the response's \<open>language_code\<close> is not the empty string: it
  is one of \<open>en\<close>, \<open>es\<close>, \<open>fr\<close>, \<open>de\<close>, \<open>it\<close>, or the sentinel \<open>unknown\<close>.
\<close>

theorem DetectLanguage_code_recognized_or_unknown:
  "\<exists>resp. DetectLanguage ct sch ms req = (Some resp, None) \<and>
     resp_LanguageCode resp \<noteq> [] \<and>
     resp_LanguageCode resp \<in> set (map gostr [''en'', ''es'', ''fr'', ''de'', ''it'', ''unknown''])"
proof -
  have "fst (detectLanguage ct sch (req_Text req)) = gostr ''unknown'' \<or>
        fst (detectLanguage ct sch (req_Text req)) \<in> set languageCodes"
    using detectLanguage_code[of ct sch "req_Text req"] by blast
  then have "fst (detectLanguage ct sch (req_Text req)) \<noteq> [] \<and>
     fst (detectLanguage ct sch (req_Text req)) \<in> set (map gostr [''en'', ''es'', ''fr'', ''de'', ''it'', ''unknown''])"
  proof
    assume u: "fst (detectLanguage ct sch (req_Text req)) = gostr ''unknown''"
    show ?thesis unfolding u by (simp add: gostr_def)
  next
    assume c: "fst (detectLanguage ct sch (req_Text req)) \<in> set languageCodes"
    then show ?thesis using codes_nonempty[OF c] by (auto simp: languageCodes_def)
  qed
  then show ?thesis by (simp add: DetectLanguage_result)
qed

text \<open>
  Claim C5. For every request, no entry of the response's \<open>alternatives\<close> carries the
  response's own \<open>language_code\<close>.
\<close>

theorem alternatives_exclude_primary:
  "\<exists>resp. DetectLanguage ct sch ms req = (Some resp, None) \<and>
     (\<forall>a\<in>set (resp_Alternatives resp). alt_LanguageCode a \<noteq> resp_LanguageCode resp)"
  by (simp add: DetectLanguage_result detectLanguage_alternatives_code)

text \<open>
  Claim C4. For every request the response's \<open>confidence\<close> and the confidence of every
  alternative lie between 0 and 1; a score above the number of words (an entry listed
  twice in a word list) is clamped to 1, and the handler still answers without an error.
\<close>

theorem confidences_in_unit_interval:
  "\<exists>resp. DetectLanguage ct sch ms req = (Some resp, None) \<and>
     0 \<le> resp_Confidence resp \<and> resp_Confidence resp \<le> 1 \<and>
     (\<forall>a\<in>set (resp_Alternatives resp). 0 \<le> alt_Confidence a \<and> alt_Confidence a \<le> 1)"
  by (simp add: DetectLanguage_result detectLanguage_confidence_range detectLanguage_alternatives_range)

lemma response_et_et_a:
  "DetectLanguage identityCaseTable literalOrder 0 (exampleRequest (gostr ''et et a'')) =
     (Some \<lparr>resp_LanguageCode = gostr ''fr'', resp_Confidence = 1,
            resp_Alternatives =
              [\<lparr>alt_LanguageCode = gostr ''en'', alt_Confidence = 11184811 / 33554432\<rparr>,
               \<lparr>alt_LanguageCode = gostr ''es'', alt_Confidence = 11184811 / 33554432\<rparr>],
            resp_DocumentId = gostr ''doc-123'',
            resp_Metadata = Some \<lparr>meta_ProcessingTimeMs = 0,
                                   meta_ServiceVersion = gostr ''1.0.0'',
                                   meta_ModelVersion = gostr ''simple-word-based-v1.0'',
                                   meta_Provider = gostr ''ld_proto_example''\<rparr>\<rparr>,
      None)"
  by (simp add: evaluation)

lemma response_the_la_la:
  "DetectLanguage identityCaseTable literalOrder 0 (exampleRequest (gostr ''The la la'')) =
     (Some \<lparr>resp_LanguageCode = gostr ''es'', resp_Confidence = 11184811 / 16777216,
            resp_Alternatives =
              [\<lparr>alt_LanguageCode = gostr ''en'', alt_Confidence = 11184811 / 33554432\<rparr>,
               \<lparr>alt_LanguageCode = gostr ''it'', alt_Confidence = 11184811 / 16777216\<rparr>],
            resp_DocumentId = gostr ''doc-123'',
            resp_Metadata = Some \<lparr>meta_ProcessingTimeMs = 0,
                                   meta_ServiceVersion = gostr ''1.0.0'',
                                   meta_ModelVersion = gostr ''simple-word-based-v1.0'',
                                   meta_Provider = gostr ''ld_proto_example''\<rparr>\<rparr>,
      None)"
  by (simp add: evaluation)

text \<open>
  Witness for C4: the text \<open>et et a\<close> scores 4 for \<open>fr\<close> on 3 words, which is clamped to 1,
  and has alternatives.
\<close>

theorem confidences_in_unit_interval_witness:
  "resp_Alternatives (the (fst (DetectLanguage identityCaseTable literalOrder 0 (exampleRequest (gostr ''et et a''))))) \<noteq> [] \<and>
   0 \<le> alt_Confidence (hd (resp_Alternatives (the (fst (DetectLanguage identityCaseTable literalOrder 0 (exampleRequest (gostr ''et et a''))))))) \<and>
   alt_Confidence (hd (resp_Alternatives (the (fst (DetectLanguage identityCaseTable literalOrder 0 (exampleRequest (gostr ''et et a''))))))) \<le> 1 \<and>
   resp_Confidence (the (fst (DetectLanguage identityCaseTable literalOrder 0 (exampleRequest (gostr ''et et a''))))) = 1"
proof -
  obtain resp where r: "DetectLanguage identityCaseTable literalOrder 0 (exampleRequest (gostr ''et et a'')) = (Some resp, None)"
    and a: "\<forall>a\<in>set (resp_Alternatives resp). 0 \<le> alt_Confidence a \<and> alt_Confidence a \<le> 1"
    using confidences_in_unit_interval[of identityCaseTable literalOrder 0 "exampleRequest (gostr ''et et a'')"]
    by blast
  have n: "resp_Alternatives resp \<noteq> []" and c: "resp_Confidence resp = 1"
    using r unfolding response_et_et_a by auto
  from n have "hd (resp_Alternatives resp) \<in> set (resp_Alternatives resp)" by simp
  with a have "0 \<le> alt_Confidence (hd (resp_Alternatives resp)) \<and> alt_Confidence (hd (resp_Alternatives resp)) \<le> 1"
    by blast
  with n c show ?thesis by (simp add: r)
qed

text \<open>Witness for C5: the text \<open>The la la\<close> has alternatives.\<close>

theorem alternatives_exclude_primary_witness:
  "resp_Alternatives (the (fst (DetectLanguage identityCaseTable literalOrder 0 (exampleRequest (gostr ''The la la''))))) \<noteq> [] \<and>
   alt_LanguageCode (hd (resp_Alternatives (the (fst (DetectLanguage identityCaseTable literalOrder 0 (exampleRequest (gostr ''The la la''))))))) \<noteq>
     resp_LanguageCode (the (fst (DetectLanguage identityCaseTable literalOrder 0 (exampleRequest (gostr ''The la la'')))))"
proof -
  obtain resp where r: "DetectLanguage identityCaseTable literalOrder 0 (exampleRequest (gostr ''The la la'')) = (Some resp, None)"
    and a: "\<forall>a\<in>set (resp_Alternatives resp). alt_LanguageCode a \<noteq> resp_LanguageCode resp"
    using alternatives_exclude_primary[of identityCaseTable literalOrder 0 "exampleRequest (gostr ''The la la'')"]
    by blast
  have n: "resp_Alternatives resp \<noteq> []"
    using r unfolding response_the_la_la by auto
  from n have "hd (resp_Alternatives resp) \<in> set (resp_Alternatives resp)" by simp
  with a have "alt_LanguageCode (hd (resp_Alternatives resp)) \<noteq> resp_LanguageCode resp"
    by blast
  with n show ?thesis by (simp add: r)
qed

lemma toLowerRune_space:
  "isSpace r \<Longrightarrow> 127 < r \<longrightarrow> isSpace (ct r) \<Longrightarrow> isSpace (toLowerRune ct r)"
  by (auto simp: toLowerRune_def isSpace_def split: if_splits)

lemma Fields_spaces:
  assumes "\<forall>r\<in>set text. isSpace r \<and> (127 < r \<longrightarrow> isSpace (ct r))"
  shows "Fields (ToLower ct text) = []"
proof -
  have "\<forall>r\<in>set (ToLower ct text). isSpace r"
    using assms by (auto simp: ToLower_def intro: toLowerRune_space)
  then show ?thesis unfolding Fields_def by (rule fieldsLoop_spaces)
qed

text \<open>
  Claim C3. When every rune of the text is white space (the empty text is the first case)
  the response is \<open>unknown\<close> with confidence 0 and no alternatives. The text is lower-cased
  before it is split, so for white space above ASCII the case table has to leave it white
  space, as Unicode's does.
\<close>

theorem whitespace_only_is_unknown:
  assumes "\<forall>r\<in>set (req_Text req). isSpace r \<and> (127 < r \<longrightarrow> isSpace (ct r))"
  shows "\<exists>resp. DetectLanguage ct sch ms req = (Some resp, None) \<and>
           resp_LanguageCode resp = gostr ''unknown'' \<and> resp_Confidence resp = 0 \<and>
           resp_Alternatives resp = []"
  by (simp add: DetectLanguage_result detectLanguage_no_words[OF Fields_spaces[OF assms]])

text \<open>Witness for C3: space, tab, no-break space and newline; and the empty text.\<close>

theorem whitespace_only_is_unknown_witness:
  "isSpace 32 \<and> isSpace 9 \<and> isSpace 160 \<and> isSpace (identityCaseTable 160) \<and> isSpace 10 \<and>
   resp_LanguageCode (the (fst (DetectLanguage identityCaseTable literalOrder 0 (exampleRequest [32, 9, 160, 10])))) = gostr ''unknown'' \<and>
   resp_Confidence (the (fst (DetectLanguage identityCaseTable literalOrder 0 (exampleRequest [32, 9, 160, 10])))) = 0 \<and>
   resp_Alternatives (the (fst (DetectLanguage identityCaseTable literalOrder 0 (exampleRequest [32, 9, 160, 10])))) = [] \<and>
   resp_LanguageCode (the (fst (DetectLanguage identityCaseTable literalOrder 0 (exampleRequest [])))) = gostr ''unknown'' \<and>
   resp_Confidence (the (fst (DetectLanguage identityCaseTable literalOrder 0 (exampleRequest [])))) = 0 \<and>
   resp_Alternatives (the (fst (DetectLanguage identityCaseTable literalOrder 0 (exampleRequest [])))) = []"
proof -
  have s: "isSpace 32 \<and> isSpace 9 \<and> isSpace 160 \<and> isSpace (identityCaseTable 160) \<and> isSpace 10"
    by (simp add: isSpace_def identityCaseTable_def)
  then have h: "\<forall>r\<in>set (req_Text (exampleRequest [32, 9, 160, 10])).
                 isSpace r \<and> (127 < r \<longrightarrow> isSpace (identityCaseTable r))"
    by (simp add: exampleRequest_def)
  have e: "\<forall>r\<in>set (req_Text (exampleRequest [])). isSpace r \<and> (127 < r \<longrightarrow> isSpace (identityCaseTable r))"
    by (simp add: exampleRequest_def)
  from whitespace_only_is_unknown[OF h, of literalOrder 0] whitespace_only_is_unknown[OF e, of literalOrder 0] s
  show ?thesis by auto
qed

lemma no_stop_word_iff:
  "(\<forall>lang. word \<notin> set (stopWords lang)) \<longleftrightarrow> word \<notin> set (concat (map stopWords languageCodes))"
proof
  assume "\<forall>lang. word \<notin> set (stopWords lang)"
  then show "word \<notin> set (concat (map stopWords languageCodes))" by simp
next
  assume a: "word \<notin> set (concat (map stopWords languageCodes))"
  show "\<forall>lang. word \<notin> set (stopWords lang)"
  proof
    fix lang
    show "word \<notin> set (stopWords lang)"
    proof (cases "lang \<in> set languageCodes")
      case True with a show ?thesis by auto
    next
      case False then show ?thesis by (simp add: stopWords_outside)
    qed
  qed
qed

text \<open>
  Claim C10. When the text has at least one word and no word is a stop-word of any
  language, the response is the default \<open>en\<close> with confidence 0 and no alternatives; and
  the response is \<open>unknown\<close> exactly when the text has no word at all.
\<close>

theorem no_stop_word_defaults_to_en:
  "\<exists>resp. DetectLanguage ct sch ms req = (Some resp, None) \<and>
     (Fields (ToLower ct (req_Text req)) \<noteq> [] \<and>
      (\<forall>word\<in>set (Fields (ToLower ct (req_Text req))). \<forall>lang. word \<notin> set (stopWords lang)) \<longrightarrow>
        resp_LanguageCode resp = gostr ''en'' \<and> resp_Confidence resp = 0 \<and> resp_Alternatives resp = []) \<and>
     (resp_LanguageCode resp = gostr ''unknown'' \<longleftrightarrow> Fields (ToLower ct (req_Text req)) = [])"
proof -
  have a: "detectLanguage ct sch (req_Text req) = (gostr ''en'', 0, [])"
    if "Fields (ToLower ct (req_Text req)) \<noteq> []"
      and "\<forall>word\<in>set (Fields (ToLower ct (req_Text req))). \<forall>lang. word \<notin> set (stopWords lang)"
    using that by (intro detectLanguage_no_match) auto
  have b: "fst (detectLanguage ct sch (req_Text req)) = gostr ''unknown'' \<longleftrightarrow> Fields (ToLower ct (req_Text req)) = []"
    using detectLanguage_code[of ct sch "req_Text req"] unknown_not_code by auto
  show ?thesis using a b by (auto simp: DetectLanguage_result)
qed

lemma fields_hola: "Fields (ToLower ct (gostr ''Hola, mundo!'')) = [gostr ''hola,'', gostr ''mundo!'']"
  by (simp add: gostr_def Fields_def ToLower_def toLowerRune_def isSpace_def)

lemma fields_hello: "Fields (ToLower ct (gostr ''Hello, world!'')) = [gostr ''hello,'', gostr ''world!'']"
  by (simp add: gostr_def Fields_def ToLower_def toLowerRune_def isSpace_def)

lemma stop_words_list:
  "concat (map stopWords languageCodes) =
     map gostr [''the'', ''and'', ''is'', ''in'', ''to'', ''of'', ''a'', ''that'', ''it'', ''with'',
                ''el'', ''la'', ''de'', ''que'', ''y'', ''a'', ''en'', ''un'', ''es'', ''se''] @
     [gostr ''le'', gostr ''de'', gostr ''et'', [224], gostr ''un'', gostr ''il'',
      234 # gostr ''tre'', gostr ''et'', gostr ''en'', gostr ''avoir''] @
     map gostr [''der'', ''die'', ''und'', ''in'', ''den'', ''von'', ''zu'', ''das'', ''mit'', ''sich'',
                ''il'', ''di'', ''che'', ''e'', ''la'', ''per'', ''un'', ''in'', ''con'', ''da'']"
  by (simp add: stopWords_def languageCodes_def languageWords_def gostr_def)

text \<open>Witness for C10: the words of \<open>Hola, mundo!\<close> are in no word list.\<close>

theorem no_stop_word_defaults_to_en_witness:
  "Fields (ToLower identityCaseTable (gostr ''Hola, mundo!'')) = [gostr ''hola,'', gostr ''mundo!''] \<and>
   gostr ''hola,'' \<notin> set (concat (map stopWords languageCodes)) \<and>
   gostr ''mundo!'' \<notin> set (concat (map stopWords languageCodes)) \<and>
   resp_LanguageCode (the (fst (DetectLanguage identityCaseTable literalOrder 0 (exampleRequest (gostr ''Hola, mundo!''))))) = gostr ''en'' \<and>
   resp_Confidence (the (fst (DetectLanguage identityCaseTable literalOrder 0 (exampleRequest (gostr ''Hola, mundo!''))))) = 0 \<and>
   resp_Alternatives (the (fst (DetectLanguage identityCaseTable literalOrder 0 (exampleRequest (gostr ''Hola, mundo!''))))) = []"
proof -
  have n: "gostr ''hola,'' \<notin> set (concat (map stopWords languageCodes)) \<and>
           gostr ''mundo!'' \<notin> set (concat (map stopWords languageCodes))"
    unfolding stop_words_list by (simp add: gostr_def)
  have t: "req_Text (exampleRequest (gostr ''Hola, mundo!'')) = gostr ''Hola, mundo!''"
    by (simp add: exampleRequest_def)
  have h: "Fields (ToLower identityCaseTable (req_Text (exampleRequest (gostr ''Hola, mundo!'')))) \<noteq> [] \<and>
     (\<forall>word\<in>set (Fields (ToLower identityCaseTable (req_Text (exampleRequest (gostr ''Hola, mundo!''))))).
        \<forall>lang. word \<notin> set (stopWords lang))"
    using n by (simp add: t fields_hola no_stop_word_iff)
  from no_stop_word_defaults_to_en[of identityCaseTable literalOrder 0 "exampleRequest (gostr ''Hola, mundo!'')"] h
  obtain resp where "DetectLanguage identityCaseTable literalOrder 0 (exampleRequest (gostr ''Hola, mundo!'')) = (Some resp, None)"
    and "resp_LanguageCode resp = gostr ''en'' \<and> resp_Confidence resp = 0 \<and> resp_Alternatives resp = []"
    by blast
  with n show ?thesis by (simp add: fields_hola)
qed

text \<open>
  Claim C1 expects \<open>en\<close> with a confidence above 0 for the text \<open>Hello, world!\<close>, and
  the example output in \<open>examples/README.md\<close> shows \<open>en (confidence: 0.20)\<close>. The code
  answers \<open>en\<close>, its default, with confidence 0 and no alternatives, in every iteration
  order: the words are \<open>hello,\<close> and \<open>world!\<close>, and neither is a stop-word.
\<close>

theorem hello_world_is_en_with_confidence_zero:
  "\<exists>resp. DetectLanguage ct sch ms (req\<lparr>req_Text := gostr ''Hello, world!''\<rparr>) = (Some resp, None) \<and>
     resp_LanguageCode resp = gostr ''en'' \<and> resp_Confidence resp = 0 \<and> resp_Alternatives resp = []"
proof -
  have n: "\<forall>word\<in>set (Fields (ToLower ct (gostr ''Hello, world!''))). \<forall>lang\<in>set languageCodes. word \<notin> set (stopWords lang)"
  proof -
    have "gostr ''hello,'' \<notin> set (concat (map stopWords languageCodes)) \<and>
          gostr ''world!'' \<notin> set (concat (map stopWords languageCodes))"
      unfolding stop_words_list by (simp add: gostr_def)
    then show ?thesis by (simp add: fields_hello no_stop_word_iff[symmetric])
  qed
  have "detectLanguage ct sch (gostr ''Hello, world!'') = (gostr ''en'', 0, [])"
    by (rule detectLanguage_no_match[OF _ n]) (simp add: fields_hello)
  then show ?thesis by (simp add: DetectLanguage_result)
qed

lemma literalOrder_valid: "validSchedule literalOrder"
  by (simp add: validSchedule_def validOrder_def literalOrder_def languageCodes_distinct)

lemma reverseOrder_valid: "validSchedule reverseOrder"
  by (simp add: validSchedule_def validOrder_def reverseOrder_def languageCodes_distinct)

text \<open>
  Claim C2 says that the same request answered twice carries the same \<open>language_code\<close>.
  The text \<open>a\<close> scores 1 for \<open>en\<close> and 1 for \<open>es\<close>; the loop keeps the first language it
  meets with the highest score, so the answer is \<open>en\<close> in one iteration order and \<open>es\<close>
  in another.
\<close>

theorem tie_breaks_determinism_counterexample:
  "validSchedule literalOrder \<and> validSchedule reverseOrder \<and>
   resp_LanguageCode (the (fst (DetectLanguage identityCaseTable literalOrder 0 (exampleRequest (gostr ''a''))))) = gostr ''en'' \<and>
   resp_LanguageCode (the (fst (DetectLanguage identityCaseTable reverseOrder 0 (exampleRequest (gostr ''a''))))) = gostr ''es'' \<and>
   resp_LanguageCode (the (fst (DetectLanguage identityCaseTable literalOrder 0 (exampleRequest (gostr ''a''))))) \<noteq>
   resp_LanguageCode (the (fst (DetectLanguage identityCaseTable reverseOrder 0 (exampleRequest (gostr ''a'')))))"
  by (simp add: literalOrder_valid reverseOrder_valid) (simp add: evaluation)

text \<open>
  Claim C2, amended: two requests with the same text, answered in any two iteration
  orders and with any measured times, carry the same \<open>confidence\<close>; they carry the same
  \<open>language_code\<close> unless two languages tie for the highest number of hits. In every
  call on a text with words the \<open>language_code\<close> is the first language, in the order in
  which that call's loop visits \<open>scores\<close>, whose hits are the highest and not 0 (\<open>en\<close>
  when no word hits); so on a tie it is the tied language visited first.
\<close>

theorem same_confidence_and_code_of_first_leader:
  assumes "validSchedule s1" and "validSchedule s2" and "req_Text req1 = req_Text req2"
  shows "\<exists>resp1 resp2.
           DetectLanguage ct s1 ms1 req1 = (Some resp1, None) \<and>
           DetectLanguage ct s2 ms2 req2 = (Some resp2, None) \<and>
           resp_Confidence resp1 = resp_Confidence resp2 \<and>
           (\<not> tie (Fields (ToLower ct (req_Text req1))) \<longrightarrow>
              resp_LanguageCode resp1 = resp_LanguageCode resp2) \<and>
           (Fields (ToLower ct (req_Text req1)) \<noteq> [] \<longrightarrow>
              resp_LanguageCode resp1 = leader (bestOrder s1) (Fields (ToLower ct (req_Text req1))) \<and>
              resp_LanguageCode resp2 = leader (bestOrder s2) (Fields (ToLower ct (req_Text req1))))"
  using detectLanguage_schedules[OF assms(1,2), of ct "req_Text req2"] assms(3)
    detectLanguage_leader[OF assms(1), of ct "req_Text req2"]
    detectLanguage_leader[OF assms(2), of ct "req_Text req2"]
  by (simp add: DetectLanguage_result)

lemma fields_the_cat:
  "Fields (ToLower ct (gostr ''The cat is in'')) = map gostr [''the'', ''cat'', ''is'', ''in'']"
  by (simp add: gostr_def Fields_def ToLower_def toLowerRune_def isSpace_def)

lemma hits_the_cat:
  "map (hits (map gostr [''the'', ''cat'', ''is'', ''in''])) languageCodes = [3, 0, 0, 1, 1]"
  by (simp add: hits_def stopWords_def languageCodes_def languageWords_def gostr_def)

lemma no_tie_the_cat: "\<not> tie (Fields (ToLower ct (gostr ''The cat is in'')))"
  unfolding fields_the_cat using hits_the_cat by (simp add: tie_def languageCodes_def)

lemma fields_in: "Fields (ToLower ct (gostr ''in'')) = [gostr ''in'']"
  by (simp add: gostr_def Fields_def ToLower_def toLowerRune_def isSpace_def)

lemma hits_in: "map (hits [gostr ''in'']) languageCodes = [1, 0, 0, 1, 1]"
  by (simp add: hits_def stopWords_def languageCodes_def languageWords_def gostr_def)

lemma tie_in: "tie (Fields (ToLower ct (gostr ''in'')))"
  unfolding fields_in using hits_in by (simp add: tie_def languageCodes_def gostr_def)

lemma leader_in:
  "leader (bestOrder literalOrder) (Fields (ToLower ct (gostr ''in''))) = gostr ''en''"
  "leader (bestOrder reverseOrder) (Fields (ToLower ct (gostr ''in''))) = gostr ''it''"
  unfolding fields_in using hits_in
  by (simp_all add: leader_def topHits_def literalOrder_def reverseOrder_def languageCodes_def gostr_def)

text \<open>
  Witness for C2: \<open>The cat is in\<close> scores 3 for \<open>en\<close> and 1 for \<open>de\<close> and \<open>it\<close>, and the two
  requests differ in their document identifier; \<open>in\<close> scores 1 for \<open>en\<close>, \<open>de\<close> and \<open>it\<close>,
  and the answer is \<open>en\<close> in the literal order and \<open>it\<close> in the reverse order.
\<close>

theorem same_confidence_and_code_of_first_leader_witness:
  "validSchedule literalOrder \<and> validSchedule reverseOrder \<and>
   req_Text (exampleRequest (gostr ''The cat is in'')) =
     req_Text \<lparr>req_Text = gostr ''The cat is in'', req_DocumentId = [], req_Metadata = Map.empty\<rparr> \<and>
   \<not> tie (Fields (ToLower identityCaseTable (req_Text (exampleRequest (gostr ''The cat is in''))))) \<and>
   Fields (ToLower identityCaseTable (req_Text (exampleRequest (gostr ''The cat is in'')))) \<noteq> [] \<and>
   resp_Confidence (the (fst (DetectLanguage identityCaseTable literalOrder 0 (exampleRequest (gostr ''The cat is in''))))) =
   resp_Confidence (the (fst (DetectLanguage identityCaseTable reverseOrder 7
      \<lparr>req_Text = gostr ''The cat is in'', req_DocumentId = [], req_Metadata = Map.empty\<rparr>))) \<and>
   resp_LanguageCode (the (fst (DetectLanguage identityCaseTable literalOrder 0 (exampleRequest (gostr ''The cat is in''))))) =
   resp_LanguageCode (the (fst (DetectLanguage identityCaseTable reverseOrder 7
      \<lparr>req_Text = gostr ''The cat is in'', req_DocumentId = [], req_Metadata = Map.empty\<rparr>))) \<and>
   tie (Fields (ToLower identityCaseTable (req_Text (exampleRequest (gostr ''in''))))) \<and>
   Fields (ToLower identityCaseTable (req_Text (exampleRequest (gostr ''in'')))) \<noteq> [] \<and>
   resp_LanguageCode (the (fst (DetectLanguage identityCaseTable literalOrder 0 (exampleRequest (gostr ''in''))))) =
     leader (bestOrder literalOrder) (Fields (ToLower identityCaseTable (req_Text (exampleRequest (gostr ''in''))))) \<and>
   leader (bestOrder literalOrder) (Fields (ToLower identityCaseTable (req_Text (exampleRequest (gostr ''in''))))) = gostr ''en'' \<and>
   resp_LanguageCode (the (fst (DetectLanguage identityCaseTable reverseOrder 0 (exampleRequest (gostr ''in''))))) =
     leader (bestOrder reverseOrder) (Fields (ToLower identityCaseTable (req_Text (exampleRequest (gostr ''in''))))) \<and>
   leader (bestOrder reverseOrder) (Fields (ToLower identityCaseTable (req_Text (exampleRequest (gostr ''in''))))) = gostr ''it''"
proof -
  have e: "req_Text (exampleRequest (gostr ''The cat is in'')) =
     req_Text \<lparr>req_Text = gostr ''The cat is in'', req_DocumentId = [], req_Metadata = Map.empty\<rparr>"
    by (simp add: exampleRequest_def)
  have t: "\<not> tie (Fields (ToLower identityCaseTable (req_Text (exampleRequest (gostr ''The cat is in'')))))"
    by (simp add: exampleRequest_def no_tie_the_cat)
  have n: "Fields (ToLower identityCaseTable (req_Text (exampleRequest (gostr ''The cat is in'')))) \<noteq> []"
    by (simp add: exampleRequest_def fields_the_cat)
  from same_confidence_and_code_of_first_leader[OF literalOrder_valid reverseOrder_valid e,
      of identityCaseTable 0 7] t
  obtain resp1 resp2 where a:
    "DetectLanguage identityCaseTable literalOrder 0 (exampleRequest (gostr ''The cat is in'')) = (Some resp1, None)"
    "DetectLanguage identityCaseTable reverseOrder 7
       \<lparr>req_Text = gostr ''The cat is in'', req_DocumentId = [], req_Metadata = Map.empty\<rparr> = (Some resp2, None)"
    "resp_Confidence resp1 = resp_Confidence resp2" "resp_LanguageCode resp1 = resp_LanguageCode resp2"
    by blast
  have ti: "tie (Fields (ToLower identityCaseTable (req_Text (exampleRequest (gostr ''in'')))))"
    by (simp add: exampleRequest_def tie_in)
  have ni: "Fields (ToLower identityCaseTable (req_Text (exampleRequest (gostr ''in'')))) \<noteq> []"
    by (simp add: exampleRequest_def fields_in)
  have li: "leader (bestOrder literalOrder) (Fields (ToLower identityCaseTable (req_Text (exampleRequest (gostr ''in''))))) = gostr ''en''"
    "leader (bestOrder reverseOrder) (Fields (ToLower identityCaseTable (req_Text (exampleRequest (gostr ''in''))))) = gostr ''it''"
    by (simp_all add: exampleRequest_def leader_in)
  from same_confidence_and_code_of_first_leader[OF literalOrder_valid reverseOrder_valid refl,
      of identityCaseTable 0 "exampleRequest (gostr ''in'')" 0] ni
  obtain resp3 resp4 where b:
    "DetectLanguage identityCaseTable literalOrder 0 (exampleRequest (gostr ''in'')) = (Some resp3, None)"
    "DetectLanguage identityCaseTable reverseOrder 0 (exampleRequest (gostr ''in'')) = (Some resp4, None)"
    "resp_LanguageCode resp3 = leader (bestOrder literalOrder) (Fields (ToLower identityCaseTable (req_Text (exampleRequest (gostr ''in'')))))"
    "resp_LanguageCode resp4 = leader (bestOrder reverseOrder) (Fields (ToLower identityCaseTable (req_Text (exampleRequest (gostr ''in'')))))"
    by blast
  show ?thesis
    using t e n a ti ni li b by (simp add: literalOrder_valid reverseOrder_valid)
qed

lemma batchLoop_attempts:
  "fst (batchLoop env docs results w) = results @ successes (attempts env docs w)"
proof (induction docs arbitrary: results w)
  case Nil show ?case by (simp add: successes_def)
next
  case (Cons doc rest)
  obtain r w1 where p: "ProcessDocument env (doc_Content doc) (doc_ID doc) w = (r, w1)"
    by (cases "ProcessDocument env (doc_Content doc) (doc_ID doc) w")
  show ?case
  proof (cases r)
    case (Inl err)
    with p show ?thesis by (simp add: Cons.IH successes_def)
  next
    case (Inr docInfo)
    with p show ?thesis by (simp add: Cons.IH successes_def)
  qed
qed

lemma attempts_length: "length (attempts env docs w) = length docs"
proof (induction docs arbitrary: w)
  case Nil show ?case by simp
next
  case (Cons doc rest)
  show ?case
    by (cases "ProcessDocument env (doc_Content doc) (doc_ID doc) w")
       (auto simp: Cons.IH split: sum.splits)
qed

lemma successes_failures_length: "length (successes rs) + length (failures rs) = length rs"
  by (induction rs) (auto simp: successes_def failures_def split: sum.splits)

text \<open>
  Claim C8. \<open>BatchProcessDocuments\<close> calls the service for every document, one after the
  other, whether or not earlier calls failed; it returns, in order, the results of the
  calls that succeeded and a \<open>nil\<close> error. The failed calls are missing from the result,
  so the number of results falls short of the number of documents by the number of
  failures.
\<close>

theorem batch_returns_the_successes:
  "fst (BatchProcessDocuments env documents w) = (successes (attempts env documents w), None) \<and>
   length (attempts env documents w) = length documents \<and>
   length (fst (fst (BatchProcessDocuments env documents w))) + length (failures (attempts env documents w)) =
     length documents"
proof -
  have "fst (BatchProcessDocuments env documents w) = (successes (attempts env documents w), None)"
    using batchLoop_attempts[of env documents "[]" w]
    by (simp add: BatchProcessDocuments_def case_prod_beta)
  then show ?thesis
    using successes_failures_length[of "attempts env documents w"]
    by (simp add: attempts_length)
qed

lemma attempts_four:
  "map (map_sum id (\<lambda>d. (info_ID d, info_Language d, info_Confidence d)))
       (attempts flakyEnvironment fourDocuments 0) =
     [Inr (gostr ''doc-001'', gostr ''en'', 0),
      Inl (RpcError 14 (gostr ''unavailable'')),
      Inr (gostr ''doc-003'', gostr ''fr'', 11184811 / 33554432),
      Inr (gostr ''doc-004'', gostr ''en'', 0)]"
  by (simp add: fourDocuments_def flakyEnvironment_def ProcessDocument_def evaluation)


lemma successes_map: "map f (successes rs) = successes (map (map_sum id f) rs)"
  by (induction rs) (auto simp: successes_def split: sum.splits)

lemma failures_map: "failures rs = failures (map (map_sum id f) rs)"
  by (induction rs) (auto simp: failures_def split: sum.splits)

text \<open>
  Witness for C8: four documents, the second call fails; three results come back, for the
  first, third and fourth document.
\<close>

theorem batch_returns_the_successes_witness:
  "length fourDocuments = 4 \<and>
   map info_ID (fst (fst (BatchProcessDocuments flakyEnvironment fourDocuments 0))) =
     [gostr ''doc-001'', gostr ''doc-003'', gostr ''doc-004''] \<and>
   snd (fst (BatchProcessDocuments flakyEnvironment fourDocuments 0)) = None \<and>
   failures (attempts flakyEnvironment fourDocuments 0) = [RpcError 14 (gostr ''unavailable'')]"
proof -
  have b: "fst (BatchProcessDocuments flakyEnvironment fourDocuments 0) =
             (successes (attempts flakyEnvironment fourDocuments 0), None)"
    using batch_returns_the_successes[of flakyEnvironment fourDocuments 0] by blast
  have "map (\<lambda>d. (info_ID d, info_Language d, info_Confidence d))
          (successes (attempts flakyEnvironment fourDocuments 0)) =
        [(gostr ''doc-001'', gostr ''en'', 0), (gostr ''doc-003'', gostr ''fr'', 11184811 / 33554432),
         (gostr ''doc-004'', gostr ''en'', 0)]"
    unfolding successes_map attempts_four by (simp add: successes_def)
  then have "map fst (map (\<lambda>d. (info_ID d, info_Language d, info_Confidence d))
          (successes (attempts flakyEnvironment fourDocuments 0))) =
        [gostr ''doc-001'', gostr ''doc-003'', gostr ''doc-004'']"
    by simp
  then have i: "map info_ID (successes (attempts flakyEnvironment fourDocuments 0)) =
        [gostr ''doc-001'', gostr ''doc-003'', gostr ''doc-004'']"
    by (simp add: comp_def)
  have f: "failures (attempts flakyEnvironment fourDocuments 0) = [RpcError 14 (gostr ''unavailable'')]"
    using failures_map[of "attempts flakyEnvironment fourDocuments 0" "\<lambda>d. (info_ID d, info_Language d, info_Confidence d)"]
    unfolding attempts_four by (simp add: failures_def)
  have l: "length fourDocuments = 4" by (simp add: fourDocuments_def)
  show ?thesis using i f l by (simp add: b)
qed

end
